theory Spec2Isabelle
  imports Complex_Main
begin

section \<open>Python values used by gen\_gdf\_file.py\<close>

text \<open>
  The exceptions that the modelled code can raise: an index out of range (a list, the
  column index of a data frame, \<open>iat\<close>), a failed \<open>open\<close> or file import, and an error
  reported by the H2O backend.
\<close>

datatype error = IndexError | IOError | H2OError

text \<open>
  A Python float as the script uses it: the entries of the correlation matrix and the
  threshold. Only comparison is applied to them, so a float is either not-a-number (the
  correlation of a constant column) or a real value. Every comparison with NaN is false.
\<close>

datatype pyfloat = NaN | Val real

fun float_gt :: "pyfloat \<Rightarrow> pyfloat \<Rightarrow> bool" where
  "float_gt (Val a) (Val b) = (b < a)"
| "float_gt _ _ = False"

fun float_abs :: "pyfloat \<Rightarrow> pyfloat" where
  "float_abs (Val a) = Val \<bar>a\<bar>"
| "float_abs NaN = NaN"

text \<open>\<open>str(i)\<close> of a non-negative integer: its decimal digits.\<close>

function str_nat :: "nat \<Rightarrow> string" where
  "str_nat n =
     (if n < 10 then [''0123456789'' ! n]
      else str_nat (n div 10) @ [''0123456789'' ! (n mod 10)])"
  by pat_completeness auto
termination
  by (relation "measure id") auto

declare str_nat.simps [simp del]

section \<open>The correlation matrix as a pandas data frame\<close>

text \<open>
  \<open>write_gdf\<close> reads three things of its argument: \<open>shape\<close>, \<open>columns[i]\<close> and
  \<open>iat[i, j]\<close>. The frame is its column labels and its rows of cells;
  \<open>shape[0]\<close> is the number of rows and \<open>shape[1]\<close> the number of columns.
\<close>

record data_frame =
  columns :: "string list"
  cells :: "pyfloat list list"

definition shape0 :: "data_frame \<Rightarrow> nat" where
  "shape0 df = length (cells df)"

definition shape1 :: "data_frame \<Rightarrow> nat" where
  "shape1 df = length (columns df)"

text \<open>\<open>corr_frame_df.columns[i]\<close>: raises IndexError past the last column.\<close>

definition column_at :: "data_frame \<Rightarrow> nat \<Rightarrow> error + string" where
  "column_at df i = (if i < length (columns df) then Inr (columns df ! i) else Inl IndexError)"

text \<open>\<open>corr_frame_df.iat[i, j]\<close>: raises IndexError outside the frame.\<close>

definition iat :: "data_frame \<Rightarrow> nat \<Rightarrow> nat \<Rightarrow> error + pyfloat" where
  "iat df i j =
     (if i < length (cells df) \<and> j < length (cells df ! i) then Inr (cells df ! i ! j)
      else Inl IndexError)"

text \<open>
  A data frame is rectangular; a correlation matrix is moreover square: \<open>cor()\<close> gives
  one row and one column per correlated column.
\<close>

definition rectangular :: "data_frame \<Rightarrow> bool" where
  "rectangular df = list_all (\<lambda>r. length r = length (columns df)) (cells df)"

definition corr_matrix :: "data_frame \<Rightarrow> bool" where
  "corr_matrix df = (rectangular df \<and> length (cells df) = length (columns df))"

section \<open>The graph writer \<open>write_gdf\<close>\<close>

text \<open>
  Every \<open>out.write\<close> of \<open>write_gdf\<close> writes one line of one of four shapes. The model
  records which one, with the values that go into it; \<open>render\<close> is the text written, and
  the file is the concatenation of the rendered lines. \<open>str\<close> of a float is Python's
  float formatting, taken as the parameter \<open>sf\<close>.
\<close>

datatype line = NodeDef | Node nat string | EdgeDef | Edge nat nat pyfloat

fun render :: "(pyfloat \<Rightarrow> string) \<Rightarrow> line \<Rightarrow> string" where
  "render sf NodeDef = ''nodedef>name VARCHAR,label VARCHAR'' @ [CHR 0x0A]"
| "render sf (Node i name) = str_nat i @ '','' @ name @ [CHR 0x0A]"
| "render sf EdgeDef = ''edgedef>node1 VARCHAR,node2 VARCHAR, weight DOUBLE'' @ [CHR 0x0A]"
| "render sf (Edge i j w) = str_nat i @ '','' @ str_nat j @ '','' @ sf w @ [CHR 0x0A]"

definition file_text :: "(pyfloat \<Rightarrow> string) \<Rightarrow> line list \<Rightarrow> string" where
  "file_text sf out = concat (map (render sf) out)"

text \<open>The node loop, lines 104-105: \<open>for i in range(0, shape[0])\<close>.\<close>

fun write_nodes :: "data_frame \<Rightarrow> nat list \<Rightarrow> line list \<Rightarrow> error + line list" where
  "write_nodes df [] out = Inr out"
| "write_nodes df (i # is) out =
     (case column_at df i of
        Inl e \<Rightarrow> Inl e
      | Inr name \<Rightarrow> write_nodes df is (out @ [Node i name]))"

text \<open>The inner edge loop, lines 110-115: \<open>for j in range(0, shape[1])\<close> at a fixed \<open>i\<close>.\<close>

fun write_row :: "data_frame \<Rightarrow> pyfloat \<Rightarrow> nat \<Rightarrow> nat list \<Rightarrow> line list \<Rightarrow> error + line list" where
  "write_row df corr_threshold i [] out = Inr out"
| "write_row df corr_threshold i (j # js) out =
     (if i > j then
        (case iat df i j of
           Inl e \<Rightarrow> Inl e
         | Inr ij \<Rightarrow>
             if float_gt ij corr_threshold
             then write_row df corr_threshold i js (out @ [Edge i j ij])
             else write_row df corr_threshold i js out)
      else write_row df corr_threshold i js out)"

text \<open>The outer edge loop, line 109: \<open>for i in range(0, shape[0])\<close>.\<close>

fun write_edges :: "data_frame \<Rightarrow> pyfloat \<Rightarrow> nat list \<Rightarrow> line list \<Rightarrow> error + line list" where
  "write_edges df corr_threshold [] out = Inr out"
| "write_edges df corr_threshold (i # is) out =
     (case write_row df corr_threshold i [0..<shape1 df] out of
        Inl e \<Rightarrow> Inl e
      | Inr out' \<Rightarrow> write_edges df corr_threshold is out')"

text \<open>
  \<open>write_gdf\<close>, lines 100-115, once the file is open: the lines written, in order, or
  the exception that ends the function (the file then holds the lines written so far).
\<close>

definition write_gdf :: "data_frame \<Rightarrow> pyfloat \<Rightarrow> error + line list" where
  "write_gdf df corr_threshold =
     (case write_nodes df [0..<shape0 df] [NodeDef] of
        Inl e \<Rightarrow> Inl e
      | Inr out \<Rightarrow> write_edges df corr_threshold [0..<shape0 df] (out @ [EdgeDef]))"

text \<open>The constant \<open>CORR_THRESHOLD = 0.01\<close>, the default of \<open>corr_threshold\<close>.\<close>

definition CORR_THRESHOLD :: pyfloat where
  "CORR_THRESHOLD = Val (1 / 100)"

subsection \<open>Reading the written lines\<close>

text \<open>
  To state what the loops write: whether a line is an edge line, the pairs of node ids
  of the edge lines of a file, and the node and edge lines described without the loops
  (row \<open>i\<close> gives the columns \<open>j\<close> below \<open>i\<close> whose cell is greater than the threshold).
\<close>

fun is_edge :: "line \<Rightarrow> bool" where
  "is_edge (Edge i j w) = True"
| "is_edge _ = False"

fun edge_ids :: "line \<Rightarrow> (nat \<times> nat) list" where
  "edge_ids (Edge i j w) = [(i, j)]"
| "edge_ids _ = []"

definition edge_pairs :: "line list \<Rightarrow> (nat \<times> nat) list" where
  "edge_pairs out = concat (map edge_ids out)"

definition node_section :: "data_frame \<Rightarrow> nat list \<Rightarrow> line list" where
  "node_section df is = map (\<lambda>i. Node i (columns df ! i)) is"

definition row_edges :: "data_frame \<Rightarrow> pyfloat \<Rightarrow> nat \<Rightarrow> nat list \<Rightarrow> line list" where
  "row_edges df thr i js =
     map (\<lambda>j. Edge i j (cells df ! i ! j))
       (filter (\<lambda>j. j < i \<and> float_gt (cells df ! i ! j) thr) js)"

definition edge_section :: "data_frame \<Rightarrow> pyfloat \<Rightarrow> nat list \<Rightarrow> line list" where
  "edge_section df thr is = concat (map (\<lambda>i. row_edges df thr i [0..<shape1 df]) is)"

section \<open>The H2O frame\<close>

text \<open>
  Modelled from the spec: the H2O library is not part of the repository. A frame is "an
  ordered collection of named columns, each with a declared type", rows aligned by
  position, "mutated by dropping columns, adding derived columns, and coercing types".
  A cell is missing, a string or a number. A column carries the list of levels that
  \<open>categories()\<close> returns for it.
\<close>

datatype cell = NA | Str string | Num real

record h2o_column =
  col_name :: string
  col_type :: string
  levels :: "string list"
  col_data :: "cell list"

type_synonym frame = "h2o_column list"

text \<open>
  What the script leaves to the library and to the machine it runs on, as parameters:
  whether \<open>h2o.init\<close> starts the cluster; the outcome of \<open>h2o.import_file\<close>; how a character cell compares with the number
  \<open>1.0\<close> (\<open>!=\<close>); what \<open>asnumeric\<close> and \<open>ascharacter\<close> make of a cell; the name
  \<open>cbind\<close> gives a column whose name is taken; the cells of a column of \<open>raw_frame\<close>
  after \<open>raw_frame[input_list].impute(method='median')\<close>; the entries of the matrix
  that \<open>cor()\<close> computes; and whether the output file can be opened.
\<close>

record h2o =
  init_ok :: bool
  import_file :: "error + frame"
  ne_number :: "string \<Rightarrow> real \<Rightarrow> bool"
  as_number :: "string \<Rightarrow> cell"
  num_to_str :: "real \<Rightarrow> string"
  uniquify :: "string list \<Rightarrow> string \<Rightarrow> string"
  impute_median :: "h2o_column \<Rightarrow> error + cell list"
  cor :: "frame \<Rightarrow> error + pyfloat list list"
  open_out :: bool

text \<open>\<open>raw_frame.types.items()\<close>: the names with their types, taken in column order.\<close>

definition types :: "frame \<Rightarrow> (string \<times> string) list" where
  "types fr = map (\<lambda>c. (col_name c, col_type c)) fr"

text \<open>\<open>raw_frame[name]\<close>: the column of that name.\<close>

definition getitem :: "frame \<Rightarrow> string \<Rightarrow> error + h2o_column" where
  "getitem fr name =
     (case find (\<lambda>c. col_name c = name) fr of None \<Rightarrow> Inl H2OError | Some c \<Rightarrow> Inr c)"

text \<open>\<open>raw_frame[input_list]\<close>: the columns of these names, in the order of the list.\<close>

fun getitems :: "frame \<Rightarrow> string list \<Rightarrow> error + frame" where
  "getitems fr [] = Inr []"
| "getitems fr (name # names) =
     (case getitem fr name of
        Inl e \<Rightarrow> Inl e
      | Inr c \<Rightarrow> (case getitems fr names of Inl e \<Rightarrow> Inl e | Inr cs \<Rightarrow> Inr (c # cs)))"

text \<open>
  \<open>raw_frame.drop(...)\<close> with a list of names, and with one name: the frame without
  the columns of these names.
\<close>

definition drop_list :: "string list \<Rightarrow> frame \<Rightarrow> frame" where
  "drop_list names fr = filter (\<lambda>c. col_name c \<notin> set names) fr"

definition drop_name :: "string \<Rightarrow> frame \<Rightarrow> frame" where
  "drop_name name fr = filter (\<lambda>c. col_name c \<noteq> name) fr"

text \<open>\<open>raw_frame.cbind(new_frame)\<close> for a frame of one column.\<close>

definition cbind :: "h2o \<Rightarrow> frame \<Rightarrow> h2o_column \<Rightarrow> frame" where
  "cbind L fr c = fr @ [c\<lparr>col_name := uniquify L (map col_name fr) (col_name c)\<rparr>]"

text \<open>
  Two properties of frames that the proofs use. The library keeps the column names of a
  frame distinct: \<open>cbind\<close> never gives a new column a name that the frame already has.
  And a column is the only one of its name in a frame.
\<close>

definition fresh_names :: "h2o \<Rightarrow> bool" where
  "fresh_names L = (\<forall>ns n. uniquify L ns n \<notin> set ns)"

definition only_column :: "h2o_column \<Rightarrow> frame \<Rightarrow> bool" where
  "only_column c fr = (c \<in> set fr \<and> (\<forall>x\<in>set fr. col_name x = col_name c \<longrightarrow> x = c))"

section \<open>Constants of the script\<close>

definition REPLACE_CHAR :: string where
  "REPLACE_CHAR = ''_''"

definition NUM_LEVELS_THRESHOLD :: nat where
  "NUM_LEVELS_THRESHOLD = 25"

definition DROP_LIST :: "string list" where
  "DROP_LIST = [''id'']"

section \<open>Name sanitising\<close>

text \<open>
  The character class of \<open>search_str\<close>, line 133: slash, backslash, semicolon, comma,
  white space (\<open>\s\<close>: space, tab, line feed, carriage return, form feed, vertical tab),
  full stop, the angle brackets, ampersand, exclamation mark, colon, double quote, the
  parentheses, star, plus, question mark, bar, equals, hash and at.
\<close>

definition search_str :: "char list" where
  "search_str =
     [CHR 0x2F, CHR 0x5C, CHR 0x3B, CHR 0x2C,
      CHR 0x20, CHR 0x09, CHR 0x0A, CHR 0x0D, CHR 0x0C, CHR 0x0B,
      CHR 0x2E, CHR 0x3C, CHR 0x3E, CHR 0x26, CHR 0x21, CHR 0x3A, CHR 0x22,
      CHR 0x29, CHR 0x28, CHR 0x2A, CHR 0x2B, CHR 0x3F, CHR 0x7C, CHR 0x3D,
      CHR 0x23, CHR 0x40]"

text \<open>\<open>re.sub(pattern, REPLACE_CHAR, s)\<close> for a pattern that is a class of characters.\<close>

definition re_sub :: "char list \<Rightarrow> string \<Rightarrow> string \<Rightarrow> string" where
  "re_sub cls repl s = concat (map (\<lambda>c. if c \<in> set cls then repl else [c]) s)"

text \<open>The two substitutions of lines 154-155 and 166-167; the second one gets the quote.\<close>

definition sanitize :: "string \<Rightarrow> string" where
  "sanitize s = re_sub [CHR 0x27] REPLACE_CHAR (re_sub search_str REPLACE_CHAR s)"

section \<open>The encoding loop of \<open>main\<close>\<close>

text \<open>Lines 141-142: the names of the columns that may be encoded.\<close>

definition try_name_list :: "frame \<Rightarrow> string list" where
  "try_name_list raw_frame =
     map fst (filter (\<lambda>(name, ty).
        ty \<notin> set [''unknown'', ''uuid'', ''time'', ''real'', ''int'']) (types raw_frame))"

text \<open>Lines 146-147: those with fewer than \<open>NUM_LEVELS_THRESHOLD\<close> levels.\<close>

fun filter_levels :: "frame \<Rightarrow> string list \<Rightarrow> error + string list" where
  "filter_levels raw_frame [] = Inr []"
| "filter_levels raw_frame (name # names) =
     (case getitem raw_frame name of
        Inl e \<Rightarrow> Inl e
      | Inr c \<Rightarrow>
          (case filter_levels raw_frame names of
             Inl e \<Rightarrow> Inl e
           | Inr rest \<Rightarrow>
               Inr (if length (levels c) < NUM_LEVELS_THRESHOLD then name # rest else rest)))"

definition encode_list :: "frame \<Rightarrow> error + string list" where
  "encode_list raw_frame = filter_levels raw_frame (try_name_list raw_frame)"

text \<open>
  Lines 170-171: \<open>while(new_name in new_name_list): new_name += REPLACE_CHAR\<close>. The name
  grows at every turn, and no name of the list is longer than the longest one.
\<close>

function remedy :: "string list \<Rightarrow> string \<Rightarrow> string" where
  "remedy new_name_list new_name =
     (if new_name \<in> set new_name_list
      then remedy new_name_list (new_name @ REPLACE_CHAR)
      else new_name)"
  by pat_completeness auto
termination
proof (relation "measure (\<lambda>(l, n). Suc (Max (length ` set l)) - length n)")
  show "wf (measure (\<lambda>(l, n). Suc (Max (length ` set l)) - length n))"
    by simp
next
  fix new_name_list :: "string list" and new_name :: string
  assume "new_name \<in> set new_name_list"
  then have "length new_name \<le> Max (length ` set new_name_list)"
    by simp
  then show "((new_name_list, new_name @ REPLACE_CHAR), (new_name_list, new_name))
      \<in> measure (\<lambda>(l, n). Suc (Max (length ` set l)) - length n)"
    by (simp add: REPLACE_CHAR_def)
qed

declare remedy.simps [simp del]

text \<open>
  Lines 173-177, on the cells of the column: coerce to character, write \<open>'1.0'\<close> where
  the cell equals the level, write \<open>'-1.0'\<close> where the cell \<open>!= 1.0\<close>, coerce to numeric.
  A missing cell is selected by neither condition.
\<close>

definition ascharacter :: "h2o \<Rightarrow> cell \<Rightarrow> cell" where
  "ascharacter L c = (case c of NA \<Rightarrow> NA | Str s \<Rightarrow> Str s | Num r \<Rightarrow> Str (num_to_str L r))"

definition positive_condition :: "string \<Rightarrow> cell \<Rightarrow> cell" where
  "positive_condition level c = (if c = Str level then Str ''1.0'' else c)"

definition negative_condition :: "h2o \<Rightarrow> cell \<Rightarrow> cell" where
  "negative_condition L c =
     (case c of
        Str s \<Rightarrow> if ne_number L s 1 then Str ''-1.0'' else Str s
      | _ \<Rightarrow> c)"

definition asnumeric :: "h2o \<Rightarrow> cell \<Rightarrow> cell" where
  "asnumeric L c = (case c of Str s \<Rightarrow> as_number L s | _ \<Rightarrow> c)"

definition indicator :: "h2o \<Rightarrow> cell list \<Rightarrow> string \<Rightarrow> cell list" where
  "indicator L xs level =
     map (asnumeric L)
       (map (negative_condition L)
         (map (positive_condition level)
           (map (ascharacter L) xs)))"

text \<open>
  The frame of one column that is bound to \<open>raw_frame\<close>, line 178. The module docstring
  gives its type: "'enum' columns will be encoded into numeric 'real' columns".
\<close>

definition new_frame :: "h2o \<Rightarrow> h2o_column \<Rightarrow> string \<Rightarrow> string \<Rightarrow> h2o_column" where
  "new_frame L c new_name level =
     \<lparr>col_name = new_name, col_type = ''real'', levels = [],
      col_data = indicator L (col_data c) level\<rparr>"

text \<open>The state of the loop: the frame and the names created so far.\<close>

record enc_state =
  raw_frame :: frame
  new_name_list :: "string list"

text \<open>
  Lines 158-178: the loop over \<open>enumerate(level_list)\<close>, where \<open>n\<close> is
  \<open>len(level_list)\<close>.
\<close>

fun encode_levels ::
  "h2o \<Rightarrow> string \<Rightarrow> string \<Rightarrow> nat \<Rightarrow> (nat \<times> string) list \<Rightarrow> enc_state \<Rightarrow> error + enc_state" where
  "encode_levels L name name_prefix n [] s = Inr s"
| "encode_levels L name name_prefix n ((j, level) # rest) s =
     (if n \<le> 2 \<and> j > 0 then encode_levels L name name_prefix n rest s
      else
        let level_suffix = sanitize level;
            new_name = remedy (new_name_list s) (name_prefix @ REPLACE_CHAR @ level_suffix)
        in case getitem (raw_frame s) name of
             Inl e \<Rightarrow> Inl e
           | Inr c \<Rightarrow>
               encode_levels L name name_prefix n rest
                 \<lparr>raw_frame = cbind L (raw_frame s) (new_frame L c new_name level),
                  new_name_list = new_name_list s @ [new_name]\<rparr>)"

text \<open>Lines 154-181: one turn of the loop over \<open>encode_list\<close>.\<close>

definition encode_column :: "h2o \<Rightarrow> string \<Rightarrow> enc_state \<Rightarrow> error + enc_state" where
  "encode_column L name s =
     (case getitem (raw_frame s) name of
        Inl e \<Rightarrow> Inl e
      | Inr c \<Rightarrow>
          let level_list = levels c in
          (case encode_levels L name (sanitize name) (length level_list)
                  (zip [0..<length level_list] level_list) s of
             Inl e \<Rightarrow> Inl e
           | Inr s' \<Rightarrow> Inr (s'\<lparr>raw_frame := drop_name name (raw_frame s')\<rparr>)))"

fun encode_loop :: "h2o \<Rightarrow> string list \<Rightarrow> enc_state \<Rightarrow> error + enc_state" where
  "encode_loop L [] s = Inr s"
| "encode_loop L (name # names) s =
     (case encode_column L name s of
        Inl e \<Rightarrow> Inl e
      | Inr s' \<Rightarrow> encode_loop L names s')"

text \<open>Lines 138-185: the whole encoding, from the frame as loaded.\<close>

definition encode :: "h2o \<Rightarrow> frame \<Rightarrow> error + enc_state" where
  "encode L fr =
     (case encode_list fr of
        Inl e \<Rightarrow> Inl e
      | Inr names \<Rightarrow> encode_loop L names \<lparr>raw_frame = fr, new_name_list = []\<rparr>)"

section \<open>\<open>main\<close>\<close>

text \<open>Lines 188-189: the names of the real and integer columns.\<close>

definition input_list :: "frame \<Rightarrow> string list" where
  "input_list fr =
     map fst (filter (\<lambda>(name, ty). ty \<in> set [''real'', ''int'']) (types fr))"

text \<open>
  Line 191, \<open>raw_frame[input_list].impute(method='median')\<close>: the call is made on a
  selection of \<open>raw_frame\<close> and its result is not kept. It leaves the names and the types
  of \<open>raw_frame\<close> as they are; the cells of the selected columns are afterwards what
  the library makes them.
\<close>

fun impute :: "h2o \<Rightarrow> string list \<Rightarrow> frame \<Rightarrow> error + frame" where
  "impute L names [] = Inr []"
| "impute L names (c # cs) =
     (if col_name c \<in> set names then
        (case impute_median L c of
           Inl e \<Rightarrow> Inl e
         | Inr xs \<Rightarrow>
             (case impute L names cs of
                Inl e \<Rightarrow> Inl e
              | Inr cs' \<Rightarrow> Inr (c\<lparr>col_data := xs\<rparr> # cs')))
      else
        (case impute L names cs of
           Inl e \<Rightarrow> Inl e
         | Inr cs' \<Rightarrow> Inr (c # cs')))"

text \<open>
  Lines 194 and 200, \<open>raw_frame[input_list].cor()\<close> and \<open>as_data_frame()\<close>: the matrix
  is labelled with the names of the correlated columns, in their order.
\<close>

definition corr_frame :: "h2o \<Rightarrow> frame \<Rightarrow> error + data_frame" where
  "corr_frame L numeric =
     (case cor L numeric of
        Inl e \<Rightarrow> Inl e
      | Inr m \<Rightarrow> Inr \<lparr>columns = map col_name numeric, cells = m\<rparr>)"

text \<open>
  The outcome of a run: the exception that ended it, if any; the lines of the output
  file when it was written to the end; and whether the H2O cluster is up when \<open>main\<close>
  is left.
\<close>

record outcome =
  raised :: "error option"
  gdf :: "line list option"
  cluster_up :: bool

text \<open>
  An exception leaves \<open>main\<close> at the statement that raised it: no statement after it is
  run, and the cluster stays as it is.
\<close>

definition leave :: "bool \<Rightarrow> error \<Rightarrow> outcome" where
  "leave up e = \<lparr>raised = Some e, gdf = None, cluster_up = up\<rparr>"

text \<open>
  Lines 200 and 100: \<open>write_gdf\<close> with its defaults, from opening the file.
\<close>

definition write_gdf_file :: "h2o \<Rightarrow> data_frame \<Rightarrow> error + line list" where
  "write_gdf_file L df = (if open_out L then write_gdf df CORR_THRESHOLD else Inl IOError)"

text \<open>
  \<open>main\<close>, lines 121-203: \<open>h2o.init\<close> first, \<open>h2o.cluster().shutdown()\<close> as the last
  statement, and between them the import, the drop of \<open>DROP_LIST\<close>, the encoding, the
  imputation, the correlation and the writing of the file.
\<close>

definition main :: "h2o \<Rightarrow> outcome" where
  "main L =
     (if \<not> init_ok L then leave False H2OError
      else
     (case import_file L of
        Inl e \<Rightarrow> leave True e
      | Inr loaded \<Rightarrow>
     (case encode L (drop_list DROP_LIST loaded) of
        Inl e \<Rightarrow> leave True e
      | Inr s \<Rightarrow>
     (case impute L (input_list (raw_frame s)) (raw_frame s) of
        Inl e \<Rightarrow> leave True e
      | Inr fr \<Rightarrow>
     (case getitems fr (input_list (raw_frame s)) of
        Inl e \<Rightarrow> leave True e
      | Inr numeric \<Rightarrow>
     (case corr_frame L numeric of
        Inl e \<Rightarrow> leave True e
      | Inr corr_frame_df \<Rightarrow>
     (case write_gdf_file L corr_frame_df of
        Inl e \<Rightarrow> leave True e
      | Inr out \<Rightarrow> \<lparr>raised = None, gdf = Some out, cluster_up = False\<rparr>)))))))"

section \<open>A library to run the model on\<close>

text \<open>
  An instance of the parameters, for evaluating the model on concrete inputs: the
  cluster starts; the file cannot be read; a character cell differs from the number \<open>1.0\<close> unless it reads
  \<open>1.0\<close>; \<open>asnumeric\<close> knows the two strings that the script writes and makes every
  other string a missing value; a taken name gets underscores until it is free; the
  imputation leaves the cells as they are; the matrix is the identity.
\<close>

definition identity_matrix :: "nat \<Rightarrow> pyfloat list list" where
  "identity_matrix n = map (\<lambda>i. map (\<lambda>j. if i = j then Val 1 else Val 0) [0..<n]) [0..<n]"

definition sample_h2o :: h2o where
  "sample_h2o =
     \<lparr>init_ok = True,
      import_file = Inl IOError,
      ne_number = (\<lambda>s r. s \<noteq> ''1.0''),
      as_number = (\<lambda>s. if s = ''1.0'' then Num 1 else if s = ''-1.0'' then Num (- 1) else NA),
      num_to_str = (\<lambda>r. []),
      uniquify = remedy,
      impute_median = (\<lambda>c. Inr (col_data c)),
      cor = (\<lambda>fr. Inr (identity_matrix (length fr))),
      open_out = True\<rparr>"

text \<open>
  Sample columns: an identifier, an amount with a missing value, a status with two
  levels, a grade with two levels that sanitise to the same name, a code with as many
  levels as the threshold, and a column with no level at all.
\<close>

definition c_id :: h2o_column where
  "c_id = \<lparr>col_name = ''id'', col_type = ''int'', levels = [],
     col_data = [Num 1, Num 2, Num 3]\<rparr>"

definition c_amount :: h2o_column where
  "c_amount = \<lparr>col_name = ''amount'', col_type = ''real'', levels = [],
     col_data = [Num 1, Num 2, NA]\<rparr>"

definition c_status :: h2o_column where
  "c_status = \<lparr>col_name = ''status'', col_type = ''enum'', levels = [''late'', ''paid''],
     col_data = [Str ''paid'', Str ''late'', Str ''paid'']\<rparr>"

definition c_grade :: h2o_column where
  "c_grade = \<lparr>col_name = ''loan grade'', col_type = ''enum'',
     levels = [''A B'', ''A/B'', ''C''],
     col_data = [Str ''A/B'', Str ''C'', Str ''A B'']\<rparr>"

definition c_zip :: h2o_column where
  "c_zip = \<lparr>col_name = ''zip'', col_type = ''enum'', levels = map str_nat [0..<25],
     col_data = [Str ''1'', Str ''2'', Str ''3'']\<rparr>"

definition c_void :: h2o_column where
  "c_void = \<lparr>col_name = ''void'', col_type = ''enum'', levels = [],
     col_data = [NA, NA, NA]\<rparr>"

definition sample_frame :: frame where
  "sample_frame = [c_id, c_amount, c_status, c_zip]"

section \<open>What \<open>write_gdf\<close> writes\<close>

lemma write_nodes_Inr:
  "write_nodes df is out = Inr out' \<Longrightarrow> out' = out @ node_section df is"
proof (induction "is" arbitrary: out)
  case Nil
  then show ?case by (simp add: node_section_def)
next
  case (Cons i "is")
  from Cons.prems have i: "i < length (columns df)"
    and w: "write_nodes df is (out @ [Node i (columns df ! i)]) = Inr out'"
    by (auto simp: column_at_def split: if_splits)
  from Cons.IH [OF w] show ?case by (simp add: node_section_def)
qed

lemma write_nodes_ok:
  "\<forall>i\<in>set is. i < length (columns df) \<Longrightarrow> write_nodes df is out = Inr (out @ node_section df is)"
  by (induction "is" arbitrary: out) (auto simp: node_section_def column_at_def)

lemma write_row_Inr:
  "write_row df thr i js out = Inr out' \<Longrightarrow> out' = out @ row_edges df thr i js"
proof (induction js arbitrary: out)
  case Nil
  then show ?case by (simp add: row_edges_def)
next
  case (Cons j js)
  show ?case
  proof (cases "j < i \<and> float_gt (cells df ! i ! j) thr")
    case True
    with Cons.prems have "write_row df thr i js (out @ [Edge i j (cells df ! i ! j)]) = Inr out'"
      by (auto simp: iat_def split: if_splits)
    from Cons.IH [OF this] True show ?thesis by (simp add: row_edges_def)
  next
    case False
    with Cons.prems have "write_row df thr i js out = Inr out'"
      by (auto simp: iat_def split: if_splits)
    from Cons.IH [OF this] False show ?thesis by (auto simp add: row_edges_def)
  qed
qed

lemma write_row_ok:
  "i < length (cells df) \<Longrightarrow> \<forall>j\<in>set js. j < i \<longrightarrow> j < length (cells df ! i) \<Longrightarrow>
   write_row df thr i js out = Inr (out @ row_edges df thr i js)"
  by (induction js arbitrary: out) (auto simp: row_edges_def iat_def)

lemma write_edges_Inr:
  "write_edges df thr is out = Inr out' \<Longrightarrow> out' = out @ edge_section df thr is"
proof (induction "is" arbitrary: out)
  case Nil
  then show ?case by (simp add: edge_section_def)
next
  case (Cons i "is")
  from Cons.prems obtain mid where r: "write_row df thr i [0..<shape1 df] out = Inr mid"
    and w: "write_edges df thr is mid = Inr out'"
    by (auto split: sum.splits)
  from write_row_Inr [OF r] Cons.IH [OF w] show ?case by (simp add: edge_section_def)
qed

lemma write_edges_ok:
  "\<forall>i\<in>set is. i < length (cells df) \<and> (\<forall>j<i. j < shape1 df \<longrightarrow> j < length (cells df ! i)) \<Longrightarrow>
   write_edges df thr is out = Inr (out @ edge_section df thr is)"
  by (induction "is" arbitrary: out) (auto simp: edge_section_def write_row_ok)

lemma write_gdf_Inr:
  "write_gdf df thr = Inr out \<Longrightarrow>
   out = NodeDef # node_section df [0..<shape0 df] @ EdgeDef # edge_section df thr [0..<shape0 df]"
  by (auto simp: write_gdf_def dest!: write_nodes_Inr write_edges_Inr split: sum.splits)

lemma write_gdf_ok:
  assumes "corr_matrix df"
  shows "write_gdf df thr =
     Inr (NodeDef # node_section df [0..<shape0 df] @ EdgeDef # edge_section df thr [0..<shape0 df])"
proof -
  have n: "length (cells df) = length (columns df)" and r: "\<forall>r\<in>set (cells df). length r = length (columns df)"
    using assms by (auto simp: corr_matrix_def rectangular_def list_all_iff)
  have 1: "write_nodes df [0..<shape0 df] [NodeDef] = Inr ([NodeDef] @ node_section df [0..<shape0 df])"
    by (rule write_nodes_ok) (simp add: shape0_def n)
  have 2: "write_edges df thr [0..<shape0 df] (([NodeDef] @ node_section df [0..<shape0 df]) @ [EdgeDef])
    = Inr ((([NodeDef] @ node_section df [0..<shape0 df]) @ [EdgeDef]) @ edge_section df thr [0..<shape0 df])"
    by (rule write_edges_ok) (use r n in \<open>auto simp: shape0_def shape1_def\<close>)
  show ?thesis
    using 2 by (simp add: write_gdf_def 1)
qed


lemma is_edge_row_edges: "list_all is_edge (row_edges df thr i js)"
  by (simp add: row_edges_def list_all_iff)

lemma is_edge_edge_section: "list_all is_edge (edge_section df thr is)"
  using is_edge_row_edges by (auto simp: edge_section_def list_all_iff)

lemma set_edge_section:
  "Edge i j w \<in> set (edge_section df thr is) \<longleftrightarrow>
     i \<in> set is \<and> j < i \<and> j < shape1 df \<and> w = cells df ! i ! j \<and> float_gt w thr"
  by (auto simp: edge_section_def row_edges_def)

lemma edge_pairs_append: "edge_pairs (xs @ ys) = edge_pairs xs @ edge_pairs ys"
  by (simp add: edge_pairs_def)

lemma edge_pairs_node_section: "edge_pairs (node_section df is) = []"
  by (induction "is") (simp_all add: edge_pairs_def node_section_def)

lemma edge_pairs_row_edges:
  "edge_pairs (row_edges df thr i js) =
     map (Pair i) (filter (\<lambda>j. j < i \<and> float_gt (cells df ! i ! j) thr) js)"
  by (induction js) (simp_all add: edge_pairs_def row_edges_def)

lemma edge_pairs_edge_section:
  "edge_pairs (edge_section df thr is) =
     concat (map (\<lambda>i. map (Pair i) (filter (\<lambda>j. j < i \<and> float_gt (cells df ! i ! j) thr) [0..<shape1 df])) is)"
proof (induction "is")
  case Nil
  then show ?case by (simp add: edge_section_def edge_pairs_def)
next
  case (Cons i "is")
  have "edge_section df thr (i # is) = row_edges df thr i [0..<shape1 df] @ edge_section df thr is"
    by (simp add: edge_section_def)
  then show ?case
    by (simp add: edge_pairs_append edge_pairs_row_edges Cons.IH)
qed

lemma distinct_edge_section:
  "distinct is \<Longrightarrow> distinct (edge_pairs (edge_section df thr is))"
proof (induction "is")
  case Nil
  then show ?case by (simp add: edge_section_def edge_pairs_def)
next
  case (Cons i "is")
  have "edge_section df thr (i # is) = row_edges df thr i [0..<shape1 df] @ edge_section df thr is"
    by (simp add: edge_section_def)
  moreover have "distinct (edge_pairs (row_edges df thr i [0..<shape1 df]))"
    by (simp add: edge_pairs_row_edges distinct_map inj_on_def)
  moreover have "set (edge_pairs (row_edges df thr i [0..<shape1 df])) \<inter>
      set (edge_pairs (edge_section df thr is)) = {}"
    using Cons.prems by (auto simp: edge_pairs_row_edges edge_pairs_edge_section)
  ultimately show ?case
    using Cons by (simp add: edge_pairs_append)
qed

lemma lower_edge_pairs:
  "(i, j) \<in> set (edge_pairs (edge_section df thr is)) \<Longrightarrow> j < i"
  by (auto simp: edge_pairs_edge_section)

lemma distinct_unordered:
  assumes "distinct ps" and "\<forall>p\<in>set ps. snd p < fst p"
  shows "distinct (map (\<lambda>(i, j). {i, j}) (ps :: (nat \<times> nat) list))"
proof -
  have "inj_on (\<lambda>(i, j). {i, j}) (set ps)"
  proof (rule inj_onI)
    fix p q assume p: "p \<in> set ps" and q: "q \<in> set ps"
      and eq: "(case p of (i, j) \<Rightarrow> {i, j}) = (case q of (i, j) \<Rightarrow> {i, j})"
    from assms(2) p q have "snd p < fst p" "snd q < fst q" by auto
    with eq show "p = q"
      by (cases p; cases q) (auto simp: doubleton_eq_iff)
  qed
  with assms(1) show ?thesis by (simp add: distinct_map)
qed

text \<open>
  Claim C8. Every edge line that \<open>write_gdf\<close> writes has its first node id strictly
  greater than its second one, so there is no self-edge and no reverse edge; and no
  unordered pair of nodes has two edge lines.
\<close>

theorem edges_strictly_lower:
  assumes "write_gdf df thr = Inr out"
  shows "(\<forall>i j w. Edge i j w \<in> set out \<longrightarrow> j < i) \<and>
         distinct (map (\<lambda>(i, j). {i, j}) (edge_pairs out))"
proof -
  let ?es = "edge_section df thr [0..<shape0 df]"
  have out: "out = NodeDef # node_section df [0..<shape0 df] @ EdgeDef # ?es"
    by (rule write_gdf_Inr [OF assms])
  have 1: "\<forall>i j w. Edge i j w \<in> set out \<longrightarrow> j < i"
    by (auto simp: out node_section_def set_edge_section)
  have ep: "edge_pairs out = edge_pairs ?es"
    by (simp add: out edge_pairs_def node_section_def comp_def)
  have "distinct (edge_pairs ?es)"
    by (rule distinct_edge_section) simp
  moreover have "\<forall>p\<in>set (edge_pairs ?es). snd p < fst p"
    using lower_edge_pairs by fastforce
  ultimately have "distinct (map (\<lambda>(i, j). {i, j}) (edge_pairs ?es))"
    by (rule distinct_unordered)
  with 1 ep show ?thesis by simp
qed

text \<open>
  The lines written for a matrix of two columns with correlation 0.9.
\<close>

theorem edges_strictly_lower_witness:
  "write_gdf \<lparr>columns = [''a'', ''b''], cells = [[Val 1, Val (9 / 10)], [Val (9 / 10), Val 1]]\<rparr>
      CORR_THRESHOLD
     = Inr [NodeDef, Node 0 ''a'', Node 1 ''b'', EdgeDef, Edge 1 0 (Val (9 / 10))] \<and>
   (\<nexists>i j w. Edge i j w \<in> set [NodeDef, Node 0 ''a'', Node 1 ''b'', EdgeDef, Edge 1 0 (Val (9 / 10))]
      \<and> i \<le> j) \<and>
   distinct (map (\<lambda>(i, j). {i, j})
     (edge_pairs [NodeDef, Node 0 ''a'', Node 1 ''b'', EdgeDef, Edge 1 0 (Val (9 / 10))]))"
proof -
  have h: "write_gdf \<lparr>columns = [''a'', ''b''], cells = [[Val 1, Val (9 / 10)], [Val (9 / 10), Val 1]]\<rparr>
      CORR_THRESHOLD
     = Inr [NodeDef, Node 0 ''a'', Node 1 ''b'', EdgeDef, Edge 1 0 (Val (9 / 10))]"
    by code_simp
  from edges_strictly_lower [OF h] h show ?thesis by simp
qed

text \<open>
  Claim C9. For a correlation matrix with \<open>n\<close> columns, the lines between the two
  header lines are exactly the \<open>n\<close> node lines, one per column in matrix order, with the
  ids 0, 1, ..., n-1; each is written as the id, a comma, the column name and a line
  feed. Every line after the second header is an edge line.
\<close>

theorem node_lines:
  assumes "corr_matrix df"
  shows "\<exists>es. write_gdf df thr =
           Inr (NodeDef # map (\<lambda>i. Node i (columns df ! i)) [0..<length (columns df)] @ EdgeDef # es)
         \<and> list_all is_edge es
         \<and> map (render sf) (map (\<lambda>i. Node i (columns df ! i)) [0..<length (columns df)])
           = map (\<lambda>i. str_nat i @ '','' @ columns df ! i @ [CHR 0x0A]) [0..<length (columns df)]"
proof -
  have n: "shape0 df = length (columns df)"
    using assms by (simp add: corr_matrix_def shape0_def)
  have "write_gdf df thr =
      Inr (NodeDef # map (\<lambda>i. Node i (columns df ! i)) [0..<length (columns df)] @
           EdgeDef # edge_section df thr [0..<shape0 df])"
    using write_gdf_ok [OF assms, of thr] by (simp add: n node_section_def)
  then show ?thesis
    using is_edge_edge_section by auto
qed

text \<open>
  The node lines of a matrix of two columns.
\<close>

theorem node_lines_witness:
  "corr_matrix \<lparr>columns = [''a'', ''b''], cells = [[Val 1, Val (9 / 10)], [Val (9 / 10), Val 1]]\<rparr> \<and>
   (\<exists>es. write_gdf \<lparr>columns = [''a'', ''b''], cells = [[Val 1, Val (9 / 10)], [Val (9 / 10), Val 1]]\<rparr>
          CORR_THRESHOLD = Inr (NodeDef # [Node 0 ''a'', Node 1 ''b''] @ EdgeDef # es)
      \<and> list_all is_edge es) \<and>
   map (render (\<lambda>w. ''0.9'')) [Node 0 ''a'', Node 1 ''b'']
     = [''0,a'' @ [CHR 0x0A], ''1,b'' @ [CHR 0x0A]]"
proof -
  let ?df = "\<lparr>columns = [''a'', ''b''], cells = [[Val 1, Val (9 / 10)], [Val (9 / 10), Val 1]]\<rparr>"
  have h: "corr_matrix ?df"
    by (simp add: corr_matrix_def rectangular_def)
  have u: "[0..<length (columns ?df)] = [0, 1]"
    by (simp add: upt_rec)
  have s: "str_nat 0 = ''0''" "str_nat (Suc 0) = ''1''"
    by (simp_all add: str_nat.simps)
  from node_lines [OF h, of CORR_THRESHOLD "\<lambda>w. ''0.9''"] h show ?thesis
    unfolding u by (simp add: s)
qed

text \<open>
  Claim C10. For the matrix with no column, \<open>write_gdf\<close> succeeds and the file is the
  two header lines, the \<open>nodedef\<close> line and then the \<open>edgedef\<close> line.
\<close>

theorem empty_matrix:
  "write_gdf \<lparr>columns = [], cells = []\<rparr> thr = Inr [NodeDef, EdgeDef] \<and>
   file_text sf [NodeDef, EdgeDef] =
     ''nodedef>name VARCHAR,label VARCHAR'' @ [CHR 0x0A] @
     ''edgedef>node1 VARCHAR,node2 VARCHAR, weight DOUBLE'' @ [CHR 0x0A]"
  by (simp add: write_gdf_def shape0_def file_text_def)

text \<open>
  Claim C1 says that a pair is written when the absolute value of its correlation
  exceeds the threshold. Line 113 compares the correlation itself: for a correlation of
  -0.9 and the threshold 0.01 the absolute value exceeds the threshold, and no edge line
  is written.
\<close>

theorem negative_correlation_not_written:
  "float_gt (float_abs (Val (- 9 / 10))) CORR_THRESHOLD \<and>
   write_gdf \<lparr>columns = [''a'', ''b''], cells = [[Val 1, Val (- 9 / 10)], [Val (- 9 / 10), Val 1]]\<rparr>
      CORR_THRESHOLD
     = Inr [NodeDef, Node 0 ''a'', Node 1 ''b'', EdgeDef]"
  by (simp add: CORR_THRESHOLD_def write_gdf_def shape0_def shape1_def upt_rec column_at_def iat_def)

text \<open>
  What the code does for every correlation matrix: an edge line is written for exactly
  the pairs below the diagonal whose correlation, with its sign, is greater than the
  threshold.
\<close>

lemma edge_written_iff:
  assumes "corr_matrix df"
  shows "\<exists>out. write_gdf df thr = Inr out \<and>
     (\<forall>i j w. Edge i j w \<in> set out \<longleftrightarrow>
        j < i \<and> i < length (columns df) \<and> w = cells df ! i ! j \<and> float_gt w thr)"
proof -
  have n: "shape0 df = length (columns df)" "shape1 df = length (columns df)"
    using assms by (simp_all add: corr_matrix_def shape0_def shape1_def)
  show ?thesis
    unfolding write_gdf_ok [OF assms]
    by (auto simp: node_section_def set_edge_section n)
qed

section \<open>The encoding loop and \<open>main\<close>\<close>

lemma remedy_fresh: "remedy l n \<notin> set l"
  by (induction l n rule: remedy.induct) (subst remedy.simps, simp)

lemma remedy_id: "n \<notin> set l \<Longrightarrow> remedy l n = n"
  by (subst remedy.simps) simp

text \<open>
  The loop of lines 170-171 appends the replacement character, and stops at the first
  name that is not in the list.
\<close>

lemma remedy_form:
  "\<exists>k. remedy l n = n @ replicate k (CHR ''_'') \<and> (\<forall>m<k. n @ replicate m (CHR ''_'') \<in> set l)"
proof (induction l n rule: remedy.induct)
  case (1 l n)
  show ?case
  proof (cases "n \<in> set l")
    case False
    then have "remedy l n = n @ replicate 0 (CHR ''_'')"
      by (simp add: remedy_id)
    then show ?thesis by blast
  next
    case True
    from "1" [OF True] obtain k where
      k: "remedy l (n @ REPLACE_CHAR) = (n @ REPLACE_CHAR) @ replicate k (CHR ''_'')"
      and m: "\<forall>m<k. (n @ REPLACE_CHAR) @ replicate m (CHR ''_'') \<in> set l"
      by blast
    have r: "remedy l n = remedy l (n @ REPLACE_CHAR)"
      using True by (subst remedy.simps) simp
    have a: "(n @ REPLACE_CHAR) @ replicate j (CHR ''_'') = n @ replicate (Suc j) (CHR ''_'')" for j
      by (simp add: REPLACE_CHAR_def)
    have "\<forall>m<Suc k. n @ replicate m (CHR ''_'') \<in> set l"
    proof (intro allI impI)
      fix m assume "m < Suc k"
      show "n @ replicate m (CHR ''_'') \<in> set l"
      proof (cases m)
        case 0
        with True show ?thesis by simp
      next
        case (Suc j)
        with \<open>m < Suc k\<close> m have "(n @ REPLACE_CHAR) @ replicate j (CHR ''_'') \<in> set l" by simp
        then show ?thesis unfolding a Suc .
      qed
    qed
    moreover have "remedy l n = n @ replicate (Suc k) (CHR ''_'')"
      unfolding r k a ..
    ultimately show ?thesis by blast
  qed
qed

lemma encode_levels_distinct:
  "encode_levels L name p n lv s = Inr s' \<Longrightarrow> distinct (new_name_list s) \<Longrightarrow>
   distinct (new_name_list s')"
proof (induction lv arbitrary: s)
  case Nil
  then show ?case by simp
next
  case (Cons a lv)
  obtain j level where a: "a = (j, level)" by (cases a)
  show ?case
  proof (cases "n \<le> 2 \<and> j > 0")
    case True
    with Cons.prems a have "encode_levels L name p n lv s = Inr s'" by simp
    from Cons.IH [OF this Cons.prems(2)] show ?thesis .
  next
    case False
    let ?nn = "remedy (new_name_list s) (p @ REPLACE_CHAR @ sanitize level)"
    from False Cons.prems a obtain c where
      "encode_levels L name p n lv
         \<lparr>raw_frame = cbind L (raw_frame s) (new_frame L c ?nn level),
          new_name_list = new_name_list s @ [?nn]\<rparr> = Inr s'"
      by (auto simp: Let_def split: sum.splits)
    from Cons.IH [OF this] Cons.prems(2) remedy_fresh show ?thesis by simp
  qed
qed

lemma encode_column_distinct:
  "encode_column L name s = Inr s' \<Longrightarrow> distinct (new_name_list s) \<Longrightarrow>
   distinct (new_name_list s')"
  by (auto simp: encode_column_def Let_def split: sum.splits dest: encode_levels_distinct)

lemma encode_loop_distinct:
  "encode_loop L names s = Inr s' \<Longrightarrow> distinct (new_name_list s) \<Longrightarrow>
   distinct (new_name_list s')"
proof (induction names arbitrary: s)
  case Nil
  then show ?case by simp
next
  case (Cons name names)
  from Cons.prems(1) obtain mid where 1: "encode_column L name s = Inr mid"
    and 2: "encode_loop L names mid = Inr s'"
    by (auto split: sum.splits)
  from Cons.IH [OF 2] encode_column_distinct [OF 1 Cons.prems(2)] show ?case .
qed

text \<open>
  Claim C7. The names in \<open>new_name_list\<close>, the indicator names created for all the
  encoded columns together, are pairwise distinct: every turn of the loop over
  \<open>encode_list\<close> keeps them distinct, so they are distinct when the encoding is done. A
  candidate name that is already in the list gets the replacement character appended,
  as often as it takes and no more often, until it is not in the list.
\<close>

theorem new_names_distinct:
  "(encode L fr = Inr s \<longrightarrow> distinct (new_name_list s)) \<and>
   (\<forall>name s0 s1. distinct (new_name_list s0) \<and> encode_column L name s0 = Inr s1 \<longrightarrow>
      distinct (new_name_list s1)) \<and>
   (\<forall>l n. remedy l n \<notin> set l \<and>
      (\<exists>k. remedy l n = n @ replicate k (CHR ''_'') \<and>
         (\<forall>m<k. n @ replicate m (CHR ''_'') \<in> set l)))"
proof -
  have "distinct (new_name_list s)" if e: "encode L fr = Inr s"
  proof -
    from e obtain names where
      "encode_loop L names \<lparr>raw_frame = fr, new_name_list = []\<rparr> = Inr s"
      by (auto simp: encode_def split: sum.splits)
    from encode_loop_distinct [OF this] show ?thesis by simp
  qed
  with encode_column_distinct remedy_fresh remedy_form show ?thesis
    by blast
qed

text \<open>
  The column \<open>loan grade\<close> has the levels \<open>A B\<close> and \<open>A/B\<close>, which both sanitise to
  \<open>A_B\<close>: the second indicator gets one more underscore.
\<close>

theorem new_names_distinct_witness:
  "encode sample_h2o [c_grade] =
     Inr \<lparr>raw_frame =
        [\<lparr>col_name = ''loan_grade_A_B'', col_type = ''real'', levels = [],
            col_data = [Num (- 1), Num (- 1), Num 1]\<rparr>,
         \<lparr>col_name = ''loan_grade_A_B_'', col_type = ''real'', levels = [],
            col_data = [Num 1, Num (- 1), Num (- 1)]\<rparr>,
         \<lparr>col_name = ''loan_grade_C'', col_type = ''real'', levels = [],
            col_data = [Num (- 1), Num 1, Num (- 1)]\<rparr>],
        new_name_list = [''loan_grade_A_B'', ''loan_grade_A_B_'', ''loan_grade_C'']\<rparr> \<and>
   distinct [''loan_grade_A_B'', ''loan_grade_A_B_'', ''loan_grade_C'']"
proof -
  have h: "encode sample_h2o [c_grade] =
     Inr \<lparr>raw_frame =
        [\<lparr>col_name = ''loan_grade_A_B'', col_type = ''real'', levels = [],
            col_data = [Num (- 1), Num (- 1), Num 1]\<rparr>,
         \<lparr>col_name = ''loan_grade_A_B_'', col_type = ''real'', levels = [],
            col_data = [Num 1, Num (- 1), Num (- 1)]\<rparr>,
         \<lparr>col_name = ''loan_grade_C'', col_type = ''real'', levels = [],
            col_data = [Num (- 1), Num 1, Num (- 1)]\<rparr>],
        new_name_list = [''loan_grade_A_B'', ''loan_grade_A_B_'', ''loan_grade_C'']\<rparr>"
    by code_simp
  from new_names_distinct [of sample_h2o "[c_grade]"] h show ?thesis by simp
qed

text \<open>
  Claim C4, as the code has it. \<open>h2o.cluster().shutdown()\<close> is the last statement of
  \<open>main\<close> and nothing guards it: a cluster that was started is shut down when \<open>main\<close>
  is left without an exception, and it is still up when loading, encoding, imputing,
  correlating or writing raised one.
\<close>

theorem shutdown_iff_no_exception:
  "cluster_up (main L) = (init_ok L \<and> raised (main L) \<noteq> None)"
  by (simp add: main_def leave_def split: sum.splits)

text \<open>
  Claim C4 as stated fails: when the file cannot be read, \<open>main\<close> is left with the
  exception and the cluster that was started is still up.
\<close>

theorem shutdown_skipped_on_error:
  "init_ok sample_h2o \<and> raised (main sample_h2o) = Some IOError \<and> cluster_up (main sample_h2o)"
  by (simp add: main_def leave_def sample_h2o_def)

text \<open>
  What lines 173-177 are written for: where the library compares a character cell with
  the number by its numeric reading, no cell is missing and no cell other than the
  level's reads \<open>1.0\<close>, the indicator is 1 on the rows of the level and -1 elsewhere.
\<close>

lemma indicator_plain:
  assumes "as_number L ''1.0'' = Num 1" and "as_number L ''-1.0'' = Num (- 1)"
    and "\<not> ne_number L ''1.0'' 1"
    and "\<forall>x\<in>set xs. \<exists>s. x = Str s \<and> (s \<noteq> level \<longrightarrow> ne_number L s 1)"
  shows "indicator L xs level = map (\<lambda>x. if x = Str level then Num 1 else Num (- 1)) xs"
  using assms
  by (auto simp: indicator_def ascharacter_def positive_condition_def negative_condition_def
      asnumeric_def)

text \<open>
  Claim C2 says that the indicator is 1 on the rows that equal the level and -1 on all
  other rows. The positive condition marks a row by writing the string \<open>1.0\<close> into it,
  and the negative condition and the coercion then see a marked row and a row whose own
  value reads \<open>1.0\<close> as the same cell. For a column with the levels 1.0, 2.0 and 3.0
  and the level 2.0, the first row (no match) and the second row (match) get the same
  value, whatever the library makes of the comparison with the number and of the
  coercion: the indicator is not -1, 1, -1.
\<close>

theorem indicator_confuses_level_with_marker:
  "indicator L [Str ''1.0'', Str ''2.0'', Str ''3.0''] ''2.0'' \<noteq> [Num (- 1), Num 1, Num (- 1)]"
  by (auto simp: indicator_def ascharacter_def positive_condition_def negative_condition_def
      asnumeric_def)

lemma encode_levels_binary:
  assumes "getitem (raw_frame s) name = Inr c" and "n = 1 \<or> n = 2" and "length lv = n"
  shows "encode_levels L name p n (zip [0..<n] lv) s =
     Inr \<lparr>raw_frame = cbind L (raw_frame s)
            (new_frame L c (remedy (new_name_list s) (p @ REPLACE_CHAR @ sanitize (lv ! 0))) (lv ! 0)),
          new_name_list = new_name_list s @
            [remedy (new_name_list s) (p @ REPLACE_CHAR @ sanitize (lv ! 0))]\<rparr>"
proof -
  from assms(2,3) consider a where "n = 1" "lv = [a]" | a b where "n = 2" "lv = [a, b]"
    by (cases lv; cases "tl lv"; cases "tl (tl lv)") auto
  then show ?thesis
  proof cases
    case 1
    then show ?thesis using assms(1) by (simp add: Let_def)
  next
    case 2
    have "[0..<2] = [0, Suc 0]" by (simp add: upt_rec)
    with 2 show ?thesis using assms(1) by (simp add: Let_def)
  qed
qed

text \<open>
  Claim C5, as the code has it. For a column with one or two levels, one turn of the
  encoding loop creates exactly one indicator, for the first level of the level list:
  one name is added to \<open>new_name_list\<close>, one column is bound to the frame, and the
  source column is dropped.
\<close>

theorem binary_column_one_indicator:
  assumes "getitem (raw_frame s) name = Inr c"
    and "length (levels c) = 1 \<or> length (levels c) = 2"
  shows "encode_column L name s =
     Inr \<lparr>raw_frame = drop_name name (cbind L (raw_frame s)
            (new_frame L c
               (remedy (new_name_list s) (sanitize name @ REPLACE_CHAR @ sanitize (levels c ! 0)))
               (levels c ! 0))),
          new_name_list = new_name_list s @
            [remedy (new_name_list s) (sanitize name @ REPLACE_CHAR @ sanitize (levels c ! 0))]\<rparr>"
  using encode_levels_binary [OF assms(1) assms(2) refl, of L "sanitize name"] assms(1)
  by (simp add: encode_column_def Let_def)

text \<open>
  The column \<open>status\<close> with the levels \<open>late\<close> and \<open>paid\<close>.
\<close>

theorem binary_column_one_indicator_witness:
  "getitem [c_amount, c_status] ''status'' = Inr c_status \<and>
   (length (levels c_status) = 1 \<or> length (levels c_status) = 2) \<and>
   encode_column sample_h2o ''status'' \<lparr>raw_frame = [c_amount, c_status], new_name_list = []\<rparr> =
     Inr \<lparr>raw_frame = [c_amount,
             \<lparr>col_name = ''status_late'', col_type = ''real'', levels = [],
              col_data = [Num (- 1), Num 1, Num (- 1)]\<rparr>],
          new_name_list = [''status_late'']\<rparr>"
proof -
  have h1: "getitem (raw_frame \<lparr>raw_frame = [c_amount, c_status], new_name_list = []\<rparr>) ''status''
      = Inr c_status"
    by code_simp
  have h2: "length (levels c_status) = 1 \<or> length (levels c_status) = 2"
    by (simp add: c_status_def)
  have e1: "drop_name ''status'' (cbind sample_h2o [c_amount, c_status]
            (new_frame sample_h2o c_status ''status_late'' (levels c_status ! 0)))
      = [c_amount,
         \<lparr>col_name = ''status_late'', col_type = ''real'', levels = [],
          col_data = [Num (- 1), Num 1, Num (- 1)]\<rparr>]"
    by code_simp
  have e2: "remedy [] (sanitize ''status'' @ REPLACE_CHAR @ sanitize (levels c_status ! 0))
      = ''status_late''"
    by code_simp
  from binary_column_one_indicator [OF h1 h2, of sample_h2o] h1 h2 show ?thesis
    by (simp add: e1 e2)
qed

text \<open>
  Claim C5 as stated fails for a column with at most two levels that has none: it is
  selected for encoding, the loop over its levels has no turn, and the column is dropped
  with no indicator.
\<close>

theorem no_level_no_indicator:
  "length (levels c_void) \<le> 2 \<and>
   encode_list [c_void] = Inr [''void''] \<and>
   encode_column sample_h2o ''void'' \<lparr>raw_frame = [c_void], new_name_list = []\<rparr> =
     Inr \<lparr>raw_frame = [], new_name_list = []\<rparr>"
  by code_simp

lemma getitem_Inr: "getitem fr name = Inr c \<Longrightarrow> c \<in> set fr \<and> col_name c = name"
  by (auto simp: getitem_def find_Some_iff split: option.splits)

lemma getitem_distinct:
  "distinct (map col_name fr) \<Longrightarrow> c \<in> set fr \<Longrightarrow> getitem fr (col_name c) = Inr c"
proof (induction fr)
  case Nil
  then show ?case by simp
next
  case (Cons x fr)
  then show ?case
    by (cases "x = c") (auto simp: getitem_def)
qed

lemma getitem_only:
  "only_column c fr \<Longrightarrow> getitem fr (col_name c) = Inr c"
proof -
  assume a: "only_column c fr"
  then have "c \<in> set fr" by (simp add: only_column_def)
  then obtain x where x: "find (\<lambda>x. col_name x = col_name c) fr = Some x"
    by (cases "find (\<lambda>x. col_name x = col_name c) fr") (auto simp: find_None_iff)
  then have "x \<in> set fr" "col_name x = col_name c"
    by (auto simp: find_Some_iff)
  with a have "x = c" by (simp add: only_column_def)
  with x show ?thesis by (simp add: getitem_def)
qed

lemma filter_levels_ok:
  assumes "distinct (map col_name fr)"
  shows "set names \<subseteq> col_name ` set fr \<Longrightarrow>
    filter_levels fr names =
      Inr (filter (\<lambda>n. \<exists>c\<in>set fr. col_name c = n \<and> length (levels c) < NUM_LEVELS_THRESHOLD) names)"
proof (induction names)
  case Nil
  then show ?case by simp
next
  case (Cons n names)
  then obtain c where c: "c \<in> set fr" "col_name c = n" by auto
  with assms have g: "getitem fr n = Inr c"
    using getitem_distinct by blast
  have u: "(\<exists>x\<in>set fr. col_name x = n \<and> length (levels x) < NUM_LEVELS_THRESHOLD)
      = (length (levels c) < NUM_LEVELS_THRESHOLD)"
  proof -
    have "x = c" if "x \<in> set fr" "col_name x = n" for x
      using that c assms by (metis distinct_map inj_onD)
    with c show ?thesis by blast
  qed
  from Cons have "filter_levels fr names =
      Inr (filter (\<lambda>n. \<exists>c\<in>set fr. col_name c = n \<and> length (levels c) < NUM_LEVELS_THRESHOLD) names)"
    by simp
  with g u show ?case by simp
qed

lemma set_try_name_list:
  "set (try_name_list fr) =
     {col_name c | c. c \<in> set fr \<and> col_type c \<notin> set [''unknown'', ''uuid'', ''time'', ''real'', ''int'']}"
  unfolding try_name_list_def types_def by (auto simp: image_iff) force+

lemma encode_list_ok:
  assumes "distinct (map col_name fr)"
  shows "\<exists>names. encode_list fr = Inr names \<and>
     (\<forall>name. name \<in> set names \<longleftrightarrow>
        (\<exists>c\<in>set fr. col_name c = name \<and>
           col_type c \<notin> set [''unknown'', ''uuid'', ''time'', ''real'', ''int''] \<and>
           length (levels c) < NUM_LEVELS_THRESHOLD))"
proof -
  let ?P = "\<lambda>n. \<exists>c\<in>set fr. col_name c = n \<and> length (levels c) < NUM_LEVELS_THRESHOLD"
  have sub: "set (try_name_list fr) \<subseteq> col_name ` set fr"
    unfolding set_try_name_list by auto
  have e: "encode_list fr = Inr (filter ?P (try_name_list fr))"
    unfolding encode_list_def by (rule filter_levels_ok [OF assms sub])
  have "name \<in> set (filter ?P (try_name_list fr)) \<longleftrightarrow>
        (\<exists>c\<in>set fr. col_name c = name \<and>
           col_type c \<notin> set [''unknown'', ''uuid'', ''time'', ''real'', ''int''] \<and>
           length (levels c) < NUM_LEVELS_THRESHOLD)" for name
  proof
    assume "name \<in> set (filter ?P (try_name_list fr))"
    then have "name \<in> set (try_name_list fr)" and "?P name" by auto
    then obtain c d where c: "c \<in> set fr" "col_name c = name"
        "col_type c \<notin> set [''unknown'', ''uuid'', ''time'', ''real'', ''int'']"
      and d: "d \<in> set fr" "col_name d = name" "length (levels d) < NUM_LEVELS_THRESHOLD"
      unfolding set_try_name_list by auto
    from c d assms have "c = d" by (metis distinct_map inj_onD)
    with c d show "\<exists>c\<in>set fr. col_name c = name \<and>
           col_type c \<notin> set [''unknown'', ''uuid'', ''time'', ''real'', ''int''] \<and>
           length (levels c) < NUM_LEVELS_THRESHOLD" by blast
  next
    assume "\<exists>c\<in>set fr. col_name c = name \<and>
           col_type c \<notin> set [''unknown'', ''uuid'', ''time'', ''real'', ''int''] \<and>
           length (levels c) < NUM_LEVELS_THRESHOLD"
    then show "name \<in> set (filter ?P (try_name_list fr))"
      by (auto simp: set_try_name_list)
  qed
  with e show ?thesis by blast
qed

lemma only_column_distinct:
  "distinct (map col_name fr) \<Longrightarrow> c \<in> set fr \<Longrightarrow> only_column c fr"
  unfolding only_column_def by (metis distinct_map inj_onD)

lemma only_column_cbind:
  "fresh_names L \<Longrightarrow> only_column c fr \<Longrightarrow> only_column c (cbind L fr x)"
proof -
  assume f: "fresh_names L" and o: "only_column c fr"
  let ?y = "x\<lparr>col_name := uniquify L (map col_name fr) (col_name x)\<rparr>"
  from o have "col_name c \<in> set (map col_name fr)"
    by (simp add: only_column_def)
  moreover from f have "uniquify L (map col_name fr) (col_name x) \<notin> set (map col_name fr)"
    unfolding fresh_names_def by blast
  then have "col_name ?y \<notin> set (map col_name fr)"
    by simp
  ultimately have "col_name ?y \<noteq> col_name c" by metis
  with o show ?thesis
    by (auto simp: only_column_def cbind_def)
qed

lemma only_column_drop:
  "name \<noteq> col_name c \<Longrightarrow> only_column c fr \<Longrightarrow> only_column c (drop_name name fr)"
  unfolding only_column_def drop_name_def by auto

lemma encode_levels_only:
  "encode_levels L name p n lv s = Inr s' \<Longrightarrow> fresh_names L \<Longrightarrow>
   only_column c (raw_frame s) \<Longrightarrow> only_column c (raw_frame s')"
proof (induction lv arbitrary: s)
  case Nil
  then show ?case by simp
next
  case (Cons a lv)
  obtain j level where a: "a = (j, level)" by (cases a)
  show ?case
  proof (cases "n \<le> 2 \<and> j > 0")
    case True
    with Cons.prems a have "encode_levels L name p n lv s = Inr s'" by simp
    from Cons.IH [OF this Cons.prems(2,3)] show ?thesis .
  next
    case False
    let ?nn = "remedy (new_name_list s) (p @ REPLACE_CHAR @ sanitize level)"
    from False Cons.prems a obtain x where
      "encode_levels L name p n lv
         \<lparr>raw_frame = cbind L (raw_frame s) (new_frame L x ?nn level),
          new_name_list = new_name_list s @ [?nn]\<rparr> = Inr s'"
      by (auto simp: Let_def split: sum.splits)
    from Cons.IH [OF this Cons.prems(2)] only_column_cbind [OF Cons.prems(2,3)]
    show ?thesis by simp
  qed
qed

lemma encode_column_only:
  assumes "encode_column L name s = Inr s'" and "fresh_names L"
    and "only_column c (raw_frame s)" and "name \<noteq> col_name c"
  shows "only_column c (raw_frame s')"
proof -
  from assms(1) obtain x :: h2o_column and mid where
    m: "encode_levels L name (sanitize name) (length (levels x))
          (zip [0..<length (levels x)] (levels x)) s = Inr mid"
    and s': "s' = mid\<lparr>raw_frame := drop_name name (raw_frame mid)\<rparr>"
    by (auto simp: encode_column_def Let_def split: sum.splits)
  from encode_levels_only [OF m assms(2,3)] only_column_drop [OF assms(4)] s'
  show ?thesis by simp
qed

lemma encode_loop_only:
  "encode_loop L names s = Inr s' \<Longrightarrow> fresh_names L \<Longrightarrow>
   only_column c (raw_frame s) \<Longrightarrow> col_name c \<notin> set names \<Longrightarrow> only_column c (raw_frame s')"
proof (induction names arbitrary: s)
  case Nil
  then show ?case by simp
next
  case (Cons name names)
  from Cons.prems(1) obtain mid where 1: "encode_column L name s = Inr mid"
    and 2: "encode_loop L names mid = Inr s'"
    by (auto split: sum.splits)
  from Cons.prems(4) have n: "name \<noteq> col_name c" "col_name c \<notin> set names" by auto
  from encode_column_only [OF 1 Cons.prems(2,3) n(1)] Cons.IH [OF 2 Cons.prems(2) _ n(2)]
  show ?case by blast
qed

lemma encode_levels_origin:
  "encode_levels L name p n lv s = Inr s' \<Longrightarrow> x \<in> set (raw_frame s') \<Longrightarrow>
   x \<in> set (raw_frame s) \<or> col_type x = ''real''"
proof (induction lv arbitrary: s)
  case Nil
  then show ?case by simp
next
  case (Cons a lv)
  obtain j level where a: "a = (j, level)" by (cases a)
  show ?case
  proof (cases "n \<le> 2 \<and> j > 0")
    case True
    with Cons.prems a have "encode_levels L name p n lv s = Inr s'" by simp
    from Cons.IH [OF this Cons.prems(2)] show ?thesis .
  next
    case False
    let ?nn = "remedy (new_name_list s) (p @ REPLACE_CHAR @ sanitize level)"
    from False Cons.prems a obtain y where
      "encode_levels L name p n lv
         \<lparr>raw_frame = cbind L (raw_frame s) (new_frame L y ?nn level),
          new_name_list = new_name_list s @ [?nn]\<rparr> = Inr s'"
      by (auto simp: Let_def split: sum.splits)
    from Cons.IH [OF this Cons.prems(2)] show ?thesis
      by (auto simp: cbind_def new_frame_def)
  qed
qed

lemma encode_column_origin:
  assumes "encode_column L name s = Inr s'" and "x \<in> set (raw_frame s')"
  shows "(x \<in> set (raw_frame s) \<and> col_name x \<noteq> name) \<or> col_type x = ''real''"
proof -
  from assms(1) obtain y :: h2o_column and mid where
    m: "encode_levels L name (sanitize name) (length (levels y))
          (zip [0..<length (levels y)] (levels y)) s = Inr mid"
    and s': "s' = mid\<lparr>raw_frame := drop_name name (raw_frame mid)\<rparr>"
    by (auto simp: encode_column_def Let_def split: sum.splits)
  from assms(2) s' have "x \<in> set (raw_frame mid)" "col_name x \<noteq> name"
    by (auto simp: drop_name_def)
  with encode_levels_origin [OF m] show ?thesis by blast
qed

lemma encode_loop_origin:
  "encode_loop L names s = Inr s' \<Longrightarrow> x \<in> set (raw_frame s') \<Longrightarrow>
   (x \<in> set (raw_frame s) \<and> col_name x \<notin> set names) \<or> col_type x = ''real''"
proof (induction names arbitrary: s)
  case Nil
  then show ?case by simp
next
  case (Cons name names)
  from Cons.prems(1) obtain mid where 1: "encode_column L name s = Inr mid"
    and 2: "encode_loop L names mid = Inr s'"
    by (auto split: sum.splits)
  from Cons.IH [OF 2 Cons.prems(2)] encode_column_origin [OF 1, of x]
  show ?case by auto
qed

lemma input_list_only:
  assumes "only_column c fr" and "col_type c \<notin> set [''unknown'', ''uuid'', ''time'', ''real'', ''int'']"
  shows "col_name c \<notin> set (input_list fr)"
proof
  assume "col_name c \<in> set (input_list fr)"
  then obtain x where "x \<in> set fr" "col_name x = col_name c" "col_type x \<in> set [''real'', ''int'']"
    unfolding input_list_def types_def by (auto simp: image_iff)
  with assms show False by (auto simp: only_column_def)
qed

lemma getitems_names: "getitems fr names = Inr cs \<Longrightarrow> map col_name cs = names"
proof (induction names arbitrary: cs)
  case Nil
  then show ?case by simp
next
  case (Cons n names)
  from Cons.prems obtain c rest where "getitem fr n = Inr c" "getitems fr names = Inr rest"
    "cs = c # rest"
    by (auto split: sum.splits)
  with Cons.IH getitem_Inr show ?case by auto
qed

lemma write_nodes_bound:
  "write_nodes df is out = Inr out' \<Longrightarrow> \<forall>i\<in>set is. i < length (columns df)"
proof (induction "is" arbitrary: out)
  case Nil
  then show ?case by simp
next
  case (Cons i "is")
  from Cons.prems have i: "i < length (columns df)"
    and w: "write_nodes df is (out @ [Node i (columns df ! i)]) = Inr out'"
    by (auto simp: column_at_def split: if_splits)
  from Cons.IH [OF w] i show ?case by simp
qed

lemma no_node_in_edge_section: "Node i nm \<notin> set (edge_section df thr is)"
  by (auto simp: edge_section_def row_edges_def)

lemma write_gdf_labels:
  assumes "write_gdf df thr = Inr out"
  shows "(\<forall>i nm. Node i nm \<in> set out \<longrightarrow> nm \<in> set (columns df)) \<and>
         (\<forall>i j w. Edge i j w \<in> set out \<longrightarrow>
             Node i (columns df ! i) \<in> set out \<and> Node j (columns df ! j) \<in> set out)"
proof -
  from assms obtain mid where m: "write_nodes df [0..<shape0 df] [NodeDef] = Inr mid"
    by (auto simp: write_gdf_def split: sum.splits)
  from write_nodes_bound [OF m] have b: "\<forall>i<shape0 df. i < length (columns df)" by simp
  have out: "out = NodeDef # node_section df [0..<shape0 df] @ EdgeDef #
      edge_section df thr [0..<shape0 df]"
    by (rule write_gdf_Inr [OF assms])
  show ?thesis
    using b by (auto simp: out node_section_def set_edge_section no_node_in_edge_section)
qed


lemma main_written:
  assumes "import_file L = Inr loaded" and "gdf (main L) = Some out"
  shows "\<exists>s m. encode L (drop_list DROP_LIST loaded) = Inr s \<and>
     write_gdf \<lparr>columns = input_list (raw_frame s), cells = m\<rparr> CORR_THRESHOLD = Inr out"
proof -
  from assms obtain s fr numeric df where
    e: "encode L (drop_list DROP_LIST loaded) = Inr s"
    and g: "getitems fr (input_list (raw_frame s)) = Inr numeric"
    and c: "corr_frame L numeric = Inr df"
    and w: "write_gdf_file L df = Inr out"
    by (auto simp: main_def leave_def split: sum.splits if_splits)
  from c obtain m where "df = \<lparr>columns = map col_name numeric, cells = m\<rparr>"
    by (auto simp: corr_frame_def split: sum.splits)
  with getitems_names [OF g] have df: "df = \<lparr>columns = input_list (raw_frame s), cells = m\<rparr>"
    by simp
  from w have "write_gdf df CORR_THRESHOLD = Inr out"
    by (auto simp: write_gdf_file_def split: if_splits)
  with e df show ?thesis by blast
qed

text \<open>
  Claim C6. A column of the loaded frame is in \<open>encode_list\<close> exactly when its type is
  none of unknown, uuid, time, real and int and it has fewer than
  \<open>NUM_LEVELS_THRESHOLD\<close> levels, and an encoded column is no longer in the frame after
  the loop. A column of such a type with at least \<open>NUM_LEVELS_THRESHOLD\<close> levels is
  still in the frame after the loop, as it was; its name is not in \<open>input_list\<close>, the
  columns that are correlated; no node line of the output bears its name, and every edge
  line joins two nodes of the output. The frames of the library have distinct column
  names, on import and under \<open>cbind\<close>.
\<close>

theorem encoded_iff_few_levels:
  assumes imp: "import_file L = Inr loaded"
    and dist: "distinct (map col_name loaded)"
    and fresh: "\<forall>ns n. uniquify L ns n \<notin> set ns"
  shows
    "(\<exists>names. encode_list (drop_list DROP_LIST loaded) = Inr names \<and>
        (\<forall>name. name \<in> set names \<longleftrightarrow>
           (\<exists>c\<in>set (drop_list DROP_LIST loaded). col_name c = name \<and>
              col_type c \<notin> set [''unknown'', ''uuid'', ''time'', ''real'', ''int''] \<and>
              length (levels c) < NUM_LEVELS_THRESHOLD)) \<and>
        (\<forall>s. encode L (drop_list DROP_LIST loaded) = Inr s \<longrightarrow>
           (\<forall>c\<in>set (drop_list DROP_LIST loaded). col_name c \<in> set names \<longrightarrow>
              c \<notin> set (raw_frame s)))) \<and>
     (\<forall>c\<in>set (drop_list DROP_LIST loaded).
        col_type c \<notin> set [''unknown'', ''uuid'', ''time'', ''real'', ''int''] \<and>
        NUM_LEVELS_THRESHOLD \<le> length (levels c) \<longrightarrow>
        (\<forall>s. encode L (drop_list DROP_LIST loaded) = Inr s \<longrightarrow>
           c \<in> set (raw_frame s) \<and> col_name c \<notin> set (input_list (raw_frame s))) \<and>
        (\<forall>out. gdf (main L) = Some out \<longrightarrow>
           (\<forall>i nm. Node i nm \<in> set out \<longrightarrow> nm \<noteq> col_name c) \<and>
           (\<forall>i j w. Edge i j w \<in> set out \<longrightarrow>
              (\<exists>a b. Node i a \<in> set out \<and> Node j b \<in> set out))))"
proof -
  let ?fr = "drop_list DROP_LIST loaded"
  let ?ign = "set [''unknown'', ''uuid'', ''time'', ''real'', ''int'']"
  have d: "distinct (map col_name ?fr)"
    using dist by (simp add: drop_list_def distinct_map_filter)
  have f: "fresh_names L"
    using fresh by (simp add: fresh_names_def)
  have same: "x = y" if "x \<in> set ?fr" "y \<in> set ?fr" "col_name x = col_name y" for x y
    using that d by (metis distinct_map inj_onD)
  from encode_list_ok [OF d] obtain names where
    n: "encode_list ?fr = Inr names"
    and iff: "\<And>name. name \<in> set names \<longleftrightarrow>
           (\<exists>c\<in>set ?fr. col_name c = name \<and> col_type c \<notin> ?ign \<and>
              length (levels c) < NUM_LEVELS_THRESHOLD)"
    by blast
  have loop: "encode_loop L names \<lparr>raw_frame = ?fr, new_name_list = []\<rparr> = Inr s"
    if "encode L ?fr = Inr s" for s
    using that n by (simp add: encode_def)
  have gone: "c \<notin> set (raw_frame s)"
    if e: "encode L ?fr = Inr s" and c: "c \<in> set ?fr" "col_name c \<in> set names" for s c
  proof
    assume "c \<in> set (raw_frame s)"
    from encode_loop_origin [OF loop [OF e] this] c(2) have r: "col_type c = ''real''"
      by simp
    from c(2) iff obtain x where "x \<in> set ?fr" "col_name x = col_name c" "col_type x \<notin> ?ign"
      by blast
    with same [OF this(1) c(1)] r show False by simp
  qed
  have kept: "c \<in> set (raw_frame s) \<and> col_name c \<notin> set (input_list (raw_frame s))"
    if e: "encode L ?fr = Inr s" and c: "c \<in> set ?fr" "col_type c \<notin> ?ign"
      "NUM_LEVELS_THRESHOLD \<le> length (levels c)" for s c
  proof -
    have "col_name c \<notin> set names"
    proof
      assume "col_name c \<in> set names"
      with iff obtain x where x: "x \<in> set ?fr" "col_name x = col_name c"
        "length (levels x) < NUM_LEVELS_THRESHOLD"
        by blast
      with same [OF x(1) c(1)] c(3) show False by simp
    qed
    with encode_loop_only [OF loop [OF e] f, of c] only_column_distinct [OF d c(1)]
    have o: "only_column c (raw_frame s)" by simp
    from input_list_only [OF o c(2)] o show ?thesis
      by (simp add: only_column_def)
  qed
  have nodes: "(\<forall>i nm. Node i nm \<in> set out \<longrightarrow> nm \<noteq> col_name c) \<and>
           (\<forall>i j w. Edge i j w \<in> set out \<longrightarrow> (\<exists>a b. Node i a \<in> set out \<and> Node j b \<in> set out))"
    if g: "gdf (main L) = Some out" and c: "c \<in> set ?fr" "col_type c \<notin> ?ign"
      "NUM_LEVELS_THRESHOLD \<le> length (levels c)" for out c
  proof -
    from main_written [OF imp g] obtain s m where
      e: "encode L ?fr = Inr s"
      and w: "write_gdf \<lparr>columns = input_list (raw_frame s), cells = m\<rparr> CORR_THRESHOLD = Inr out"
      by blast
    from kept [OF e c] have "col_name c \<notin> set (input_list (raw_frame s))" by simp
    with write_gdf_labels [OF w] show ?thesis
      by (simp del: set_simps) blast
  qed
  from n iff gone kept nodes show ?thesis
    by (simp del: set_simps)
qed

text \<open>
  The column \<open>zip\<close> has exactly \<open>NUM_LEVELS_THRESHOLD\<close> levels: it is not encoded and
  gives no node.
\<close>

theorem encoded_iff_few_levels_witness:
  "import_file (sample_h2o\<lparr>import_file := Inr sample_frame\<rparr>) = Inr sample_frame \<and>
   distinct (map col_name sample_frame) \<and>
   (\<forall>ns n. uniquify (sample_h2o\<lparr>import_file := Inr sample_frame\<rparr>) ns n \<notin> set ns) \<and>
   encode_list (drop_list DROP_LIST sample_frame) = Inr [''status''] \<and>
   c_zip \<in> set (drop_list DROP_LIST sample_frame) \<and>
   col_type c_zip = ''enum'' \<and>
   length (levels c_zip) = NUM_LEVELS_THRESHOLD \<and>
   gdf (main (sample_h2o\<lparr>import_file := Inr sample_frame\<rparr>)) =
     Some [NodeDef, Node 0 ''amount'', Node 1 ''status_late'', EdgeDef] \<and>
   (\<nexists>i. Node i (col_name c_zip) \<in> set [NodeDef, Node 0 ''amount'', Node 1 ''status_late'', EdgeDef])"
proof -
  let ?L = "sample_h2o\<lparr>import_file := Inr sample_frame\<rparr>"
  let ?out = "[NodeDef, Node 0 ''amount'', Node 1 ''status_late'', EdgeDef]"
  have h1: "import_file ?L = Inr sample_frame"
    by simp
  have h2: "distinct (map col_name sample_frame)"
    by code_simp
  have h3: "\<forall>ns n. uniquify ?L ns n \<notin> set ns"
    by (simp add: sample_h2o_def remedy_fresh)
  have e1: "encode_list (drop_list DROP_LIST sample_frame) = Inr [''status'']"
    by code_simp
  have e2: "c_zip \<in> set (drop_list DROP_LIST sample_frame)"
    by code_simp
  have e3: "col_type c_zip = ''enum''"
    by (simp add: c_zip_def)
  have e4: "length (levels c_zip) = NUM_LEVELS_THRESHOLD"
    by (simp add: c_zip_def NUM_LEVELS_THRESHOLD_def)
  have e5: "gdf (main ?L) = Some ?out"
    by code_simp
  have c: "col_type c_zip \<notin> set [''unknown'', ''uuid'', ''time'', ''real'', ''int''] \<and>
      NUM_LEVELS_THRESHOLD \<le> length (levels c_zip)"
    by (simp add: e3 e4)
  from encoded_iff_few_levels [OF h1 h2 h3] e2 c e5
  have "\<forall>i nm. Node i nm \<in> set ?out \<longrightarrow> nm \<noteq> col_name c_zip"
    by blast
  then have "\<nexists>i. Node i (col_name c_zip) \<in> set ?out"
    by blast
  with h1 h2 h3 e1 e2 e3 e4 e5 show ?thesis
    by blast
qed

end
